theory Spec2Isabelle
  imports Main "HOL-Library.List_Lexorder"
begin

section \<open>Proxer: text, exceptions and the outside world\<close>

text \<open>
  A Python \<open>str\<close> is a sequence of Unicode code points. A code point is a natural number
  here, so that the line boundaries U+0085, U+2028 and U+2029 of \<open>str.splitlines\<close> are
  ordinary characters of the model. \<open>lit\<close> turns an ASCII literal into such a text.
\<close>

type_synonym codepoint = nat
type_synonym pystr = "codepoint list"

definition lit :: "string \<Rightarrow> pystr" where
  "lit s = map of_char s"

text \<open>
  The exceptions that the modelled code raises or lets through. \<open>RequestException\<close>
  stands for \<open>requests.RequestException\<close> and all its subclasses (connection errors,
  proxy errors, TLS errors, timeouts, invalid URLs, \<open>HTTPError\<close>); \<open>OtherException\<close> for any
  exception outside that hierarchy (\<open>KeyboardInterrupt\<close> included).
\<close>

datatype value_error = InvalidSources "pystr set" | FileNotFound

datatype exn =
    RequestException
  | ValueError value_error
  | IndexError
  | KeyError
  | OtherException

fun is_RequestException :: "exn \<Rightarrow> bool" where
  "is_RequestException RequestException = True"
| "is_RequestException _ = False"

text \<open>A \<open>requests.Response\<close>, as far as the program reads it; \<open>body_text\<close> is its
  \<open>.text\<close> attribute.\<close>

record response =
  status_code :: int
  body_text :: pystr

text \<open>One call of \<open>requests.get\<close>: the URL and the proxy it is routed through, if any.\<close>

datatype request = Get pystr "pystr option"

text \<open>
  What the program cannot decide by itself is a parameter: what the network answers to a
  request (a response, or an exception raised by \<open>requests.get\<close>), the formatted clock
  reading of \<open>get_timestamp\<close>, the \<open>tr\<close>/\<open>td\<close> structure BeautifulSoup finds in a page,
  the order in which the interpreter iterates a set, and the non-ASCII part of the Unicode
  tables behind \<open>\d\<close> and \<open>str.isdigit\<close>.
\<close>

record env =
  net :: "request \<Rightarrow> exn + response"
  timestamp :: pystr
  html_rows :: "pystr \<Rightarrow> pystr list list"
  set_iter :: "pystr set \<Rightarrow> pystr list"
  nonascii_Nd :: "codepoint \<Rightarrow> bool"
  nonascii_digit :: "codepoint \<Rightarrow> bool"

text \<open>
  The state the program changes: the requests sent so far, in the order they were handed
  to the network layer, and the text files written. Output on the terminal is not
  modelled.
\<close>

record world =
  requests :: "request list"
  files :: "pystr \<rightharpoonup> pystr"

definition requests_get :: "env \<Rightarrow> world \<Rightarrow> pystr \<Rightarrow> pystr option \<Rightarrow> (exn + response) \<times> world" where
  "requests_get e w url proxy =
     (net e (Get url proxy), w\<lparr>requests := requests w @ [Get url proxy]\<rparr>)"

section \<open>Text operations\<close>

text \<open>\<open>needle in hay\<close> on \<open>str\<close>: \<open>needle\<close> occurs in \<open>hay\<close> as a contiguous piece.\<close>

fun startswith :: "pystr \<Rightarrow> pystr \<Rightarrow> bool" where
  "startswith s [] = True"
| "startswith [] (p # ps) = False"
| "startswith (c # cs) (p # ps) = (c = p \<and> startswith cs ps)"

fun str_contains :: "pystr \<Rightarrow> pystr \<Rightarrow> bool" where
  "str_contains needle [] = (needle = [])"
| "str_contains needle (c # cs) = (startswith (c # cs) needle \<or> str_contains needle cs)"

text \<open>
  \<open>'\n'.join(proxies)\<close>, for any separator.
\<close>

fun join :: "pystr \<Rightarrow> pystr list \<Rightarrow> pystr" where
  "join sep [] = []"
| "join sep [x] = x"
| "join sep (x # y # ys) = x @ sep @ join sep (y # ys)"

text \<open>
  \<open>str.splitlines()\<close>. A line ends at \<open>\n\<close>, \<open>\r\<close>, \<open>\r\n\<close> (one boundary), \<open>\v\<close>,
  \<open>\f\<close>, \<open>\x1c\<close>, \<open>\x1d\<close>, \<open>\x1e\<close>, \<open>\x85\<close>, U+2028 or U+2029; the boundaries are
  dropped; a text that ends with a boundary has no empty last line, and the empty text
  has no line. \<open>splitlines_from cur cr s\<close> scans \<open>s\<close> with the line read so far in
  \<open>cur\<close>; \<open>cr\<close> says that the character just before was \<open>\r\<close>, so that a \<open>\n\<close> now
  belongs to the same boundary.
\<close>

definition is_linebreak :: "codepoint \<Rightarrow> bool" where
  "is_linebreak c \<longleftrightarrow> c \<in> {10, 11, 12, 13, 28, 29, 30, 133, 8232, 8233}"

fun splitlines_from :: "pystr \<Rightarrow> bool \<Rightarrow> pystr \<Rightarrow> pystr list" where
  "splitlines_from cur cr [] = (if cur = [] then [] else [cur])"
| "splitlines_from cur cr (c # cs) =
     (if c = 10 \<and> cr then splitlines_from cur False cs
      else if is_linebreak c then cur # splitlines_from [] (c = 13) cs
      else splitlines_from (cur @ [c]) False cs)"

definition splitlines :: "pystr \<Rightarrow> pystr list" where
  "splitlines s = splitlines_from [] False s"

text \<open>
  Reading a file opened with \<open>open(path, 'r')\<close>: the default universal-newlines mode
  turns \<open>\r\n\<close> and a lone \<open>\r\<close> into \<open>\n\<close>.
\<close>

fun universal_newlines :: "bool \<Rightarrow> pystr \<Rightarrow> pystr" where
  "universal_newlines cr [] = []"
| "universal_newlines cr (c # cs) =
     (if c = 13 then 10 # universal_newlines True cs
      else if c = 10 \<and> cr then universal_newlines False cs
      else c # universal_newlines False cs)"

text \<open>
  \<open>re.match\<close> with the two patterns of the program. \<open>\d\<close> on a \<open>str\<close> is a Unicode
  decimal digit (category Nd): an ASCII digit, or a non-ASCII code point of the table.
  \<open>\d+\<close> takes every digit in front (what follows in the pattern is never a digit, so
  giving digits back cannot help); \<open>$\<close> holds at the end and before a final \<open>\n\<close>.
  Each piece returns the rest of the text after its match.
\<close>

definition is_Nd :: "env \<Rightarrow> codepoint \<Rightarrow> bool" where
  "is_Nd e c \<longleftrightarrow> (48 \<le> c \<and> c \<le> 57) \<or> (128 \<le> c \<and> nonascii_Nd e c)"

definition digits1 :: "(codepoint \<Rightarrow> bool) \<Rightarrow> pystr \<Rightarrow> pystr option" where
  "digits1 d s = (case s of [] \<Rightarrow> None | c # cs \<Rightarrow> if d c then Some (dropWhile d cs) else None)"

definition lit_char :: "codepoint \<Rightarrow> pystr \<Rightarrow> pystr option" where
  "lit_char k s = (case s of [] \<Rightarrow> None | c # cs \<Rightarrow> if c = k then Some cs else None)"

definition at_dollar :: "pystr \<Rightarrow> bool" where
  "at_dollar s \<longleftrightarrow> s = [] \<or> s = [10]"

definition re_dotted_quad :: "(codepoint \<Rightarrow> bool) \<Rightarrow> pystr \<Rightarrow> pystr option" where
  "re_dotted_quad d s =
     Option.bind (digits1 d s) (\<lambda>s1. Option.bind (lit_char 46 s1)
    (\<lambda>s2. Option.bind (digits1 d s2) (\<lambda>s3. Option.bind (lit_char 46 s3)
    (\<lambda>s4. Option.bind (digits1 d s4) (\<lambda>s5. Option.bind (lit_char 46 s5)
    (\<lambda>s6. digits1 d s6))))))"

definition re_match_host :: "env \<Rightarrow> pystr \<Rightarrow> bool" where
  "re_match_host e s = (case re_dotted_quad (is_Nd e) s of None \<Rightarrow> False | Some r \<Rightarrow> at_dollar r)"

definition re_match_host_port :: "env \<Rightarrow> pystr \<Rightarrow> bool" where
  "re_match_host_port e s =
     (case Option.bind (re_dotted_quad (is_Nd e) s) (\<lambda>r. Option.bind (lit_char 58 r) (digits1 (is_Nd e))) of
        None \<Rightarrow> False
      | Some r \<Rightarrow> at_dollar r)"

text \<open>
  \<open>str.isdigit()\<close>: at least one character, and every character a digit in the sense of
  Unicode (the decimal digits and some more, such as superscript digits).
\<close>

definition is_digit_char :: "env \<Rightarrow> codepoint \<Rightarrow> bool" where
  "is_digit_char e c \<longleftrightarrow> (48 \<le> c \<and> c \<le> 57) \<or> (128 \<le> c \<and> nonascii_digit e c)"

definition isdigit :: "env \<Rightarrow> pystr \<Rightarrow> bool" where
  "isdigit e s \<longleftrightarrow> s \<noteq> [] \<and> list_all (is_digit_char e) s"

section \<open>ProxyManager\<close>

definition PROXY_SOURCES :: "(pystr \<times> pystr) list" where
  "PROXY_SOURCES =
     [(lit ''sslproxies'', lit ''https://www.sslproxies.org/''),
      (lit ''freeproxylist'', lit ''https://free-proxy-list.net/''),
      (lit ''usproxy'', lit ''https://www.us-proxy.org/''),
      (lit ''socksproxy'', lit ''https://www.socks-proxy.net/''),
      (lit ''spysme'', lit ''https://spys.me/proxy.txt''),
      (lit ''proxydaily'', lit ''https://proxy-daily.com/'')]"

definition OUTPUT_DIR :: pystr where
  "OUTPUT_DIR = lit ''ProxerProxies''"

definition TEST_URL :: pystr where
  "TEST_URL = lit ''https://httpbin.org/ip''"

definition MAX_WORKERS :: nat where
  "MAX_WORKERS = 50"

text \<open>
  \<open>save_proxies\<close> writes the entries, joined by \<open>\n\<close>, to
  \<open>OUTPUT_DIR / f"{prefix}_{timestamp}.txt"\<close>. The argument is the collection in the
  order it is iterated. The body has no \<open>return\<close> statement, so the value returned is
  Python's \<open>None\<close>: the result type is \<open>pystr option\<close>, a path or \<open>None\<close>. The
  directory exists (the constructor makes it) and the write succeeds.
\<close>

definition output_path :: "env \<Rightarrow> pystr \<Rightarrow> pystr" where
  "output_path e prefix = OUTPUT_DIR @ lit ''/'' @ prefix @ lit ''_'' @ timestamp e @ lit ''.txt''"

definition save_proxies :: "env \<Rightarrow> world \<Rightarrow> pystr list \<Rightarrow> pystr \<Rightarrow> pystr option \<times> world" where
  "save_proxies e w proxies prefix =
     (None, w\<lparr>files := (files w)(output_path e prefix \<mapsto> join [10] proxies)\<rparr>)"

definition parse_spysme :: "env \<Rightarrow> pystr \<Rightarrow> pystr set" where
  "parse_spysme e response_text = set (filter (re_match_host_port e) (splitlines response_text))"

text \<open>
  \<open>parse_html_table\<close>, over the rows of the page, each row the texts of its \<open>td\<close> cells.
  \<open>columns[1]\<close> is read only when the row is not empty and its first cell matches; a row
  with that one cell alone raises \<open>IndexError\<close>.
\<close>

fun parse_html_table :: "env \<Rightarrow> pystr list list \<Rightarrow> pystr set \<Rightarrow> exn + pystr set" where
  "parse_html_table e [] proxies = Inr proxies"
| "parse_html_table e ([] # rows) proxies = parse_html_table e rows proxies"
| "parse_html_table e ((c0 # cols) # rows) proxies =
     (if re_match_host e c0 then
        (case cols of
           [] \<Rightarrow> Inl IndexError
         | c1 # _ \<Rightarrow>
             if isdigit e c1 then parse_html_table e rows (insert (c0 @ lit '':'' @ c1) proxies)
             else parse_html_table e rows proxies)
      else parse_html_table e rows proxies)"

text \<open>
  The loop of \<open>get_proxies\<close> over the sources. A \<open>RequestException\<close> of the request, and
  the \<open>HTTPError\<close> that \<open>raise_for_status\<close> raises for a status from 400 to 599, are
  caught and the loop goes on; any other exception leaves the function.
\<close>

fun fetch_sources :: "env \<Rightarrow> world \<Rightarrow> pystr list \<Rightarrow> pystr set \<Rightarrow> (exn + pystr set) \<times> world" where
  "fetch_sources e w [] proxies = (Inr proxies, w)"
| "fetch_sources e w (source # sources) proxies =
     (case map_of PROXY_SOURCES source of
        None \<Rightarrow> (Inl KeyError, w)
      | Some url \<Rightarrow>
          (case requests_get e w url None of
             (Inl err, w1) \<Rightarrow>
               if is_RequestException err then fetch_sources e w1 sources proxies
               else (Inl err, w1)
           | (Inr response, w1) \<Rightarrow>
               if 400 \<le> status_code response \<and> status_code response < 600
               then fetch_sources e w1 sources proxies
               else if source = lit ''spysme''
               then fetch_sources e w1 sources (proxies \<union> parse_spysme e (body_text response))
               else
                 (case parse_html_table e (html_rows e (body_text response)) {} of
                    Inl err \<Rightarrow> (Inl err, w1)
                  | Inr found \<Rightarrow> fetch_sources e w1 sources (proxies \<union> found))))"

text \<open>
  \<open>get_proxies\<close>; \<open>None\<close> for the argument is the default \<open>sources=None\<close>. The check of
  the source names comes first and raises before anything else is done.
\<close>

definition get_proxies :: "env \<Rightarrow> world \<Rightarrow> pystr list option \<Rightarrow> (exn + pystr set) \<times> world" where
  "get_proxies e w sources_arg =
     (let sources = (case sources_arg of None \<Rightarrow> map fst PROXY_SOURCES | Some l \<Rightarrow> l);
          invalid_sources = set sources - set (map fst PROXY_SOURCES)
      in if invalid_sources \<noteq> {} then (Inl (ValueError (InvalidSources invalid_sources)), w)
         else
           (case fetch_sources e w sources {} of
              (Inl err, w1) \<Rightarrow> (Inl err, w1)
            | (Inr proxies, w1) \<Rightarrow>
                (Inr proxies, snd (save_proxies e w1 (set_iter e proxies) []))))"

text \<open>
  \<open>test_proxy\<close>: one \<open>requests.get\<close> of the test URL through the proxy, inside
  \<open>try\<close> ... \<open>except: pass\<close>. The bare \<open>except\<close> catches every exception of the
  request; control then reaches the final \<open>return False\<close>, as it does when the
  condition on the response is false.
\<close>

definition test_proxy :: "env \<Rightarrow> world \<Rightarrow> pystr \<Rightarrow> (exn + bool) \<times> world" where
  "test_proxy e w proxy =
     (case requests_get e w TEST_URL (Some proxy) of
        (Inr response, w') \<Rightarrow>
          if status_code response = 200 \<and> str_contains (lit ''origin'') (body_text response)
          then (Inr True, w')
          else (Inr False, w')
      | (Inl err, w') \<Rightarrow> (Inr False, w'))"

text \<open>
  \<open>executor.map(fn, items)\<close> of a \<open>ThreadPoolExecutor\<close> submits one call of \<open>fn\<close> for each
  item, in the order of the items, and its result iterator yields the outcomes in that
  same order; an exception raised by a call comes out when its outcome is taken from the
  iterator. Leaving the \<open>with\<close> block waits for every submitted call. The calls run on up
  to \<open>MAX_WORKERS\<close> threads; the model runs them one after the other in the order of
  submission, which fixes the order of the log but not which calls are made nor what
  each returns.
\<close>

fun executor_map :: "(world \<Rightarrow> 'a \<Rightarrow> (exn + 'b) \<times> world) \<Rightarrow> 'a list \<Rightarrow> world \<Rightarrow> (exn + 'b) list \<times> world" where
  "executor_map fn [] w = ([], w)"
| "executor_map fn (x # xs) w =
     (case fn w x of (r, w1) \<Rightarrow>
        (case executor_map fn xs w1 of (rs, w2) \<Rightarrow> (r # rs, w2)))"

text \<open>The \<open>for proxy, is_working in zip(proxies, results)\<close> loop, with the list \<open>valid\<close>.\<close>

fun collect_valid :: "(pystr \<times> (exn + bool)) list \<Rightarrow> pystr list \<Rightarrow> exn + pystr list" where
  "collect_valid [] valid = Inr valid"
| "collect_valid ((proxy, Inl err) # rest) valid = Inl err"
| "collect_valid ((proxy, Inr is_working) # rest) valid =
     collect_valid rest (if is_working then valid @ [proxy] else valid)"

text \<open>
  \<open>filter_proxies\<close>. The argument is the set \<open>proxies\<close> as the list of its elements in
  iteration order; the set is not changed between \<open>executor.map\<close> and \<open>zip\<close>, so both
  iterate it in that one order.
\<close>

definition filter_proxies :: "env \<Rightarrow> world \<Rightarrow> pystr list \<Rightarrow> (exn + pystr list) \<times> world" where
  "filter_proxies e w proxies =
     (case executor_map (test_proxy e) proxies w of
        (results, w') \<Rightarrow> (collect_valid (zip proxies results) [], w'))"

section \<open>ProxyCLI\<close>

text \<open>
  The reading step of \<open>check_proxies_menu\<close>: the file at the path the user typed, read
  whole, split into lines and made a set; a missing file is a \<open>ValueError\<close>.
\<close>

definition read_proxy_file :: "world \<Rightarrow> pystr \<Rightarrow> exn + pystr set" where
  "read_proxy_file w file_path =
     (case files w file_path of
        None \<Rightarrow> Inl (ValueError FileNotFound)
      | Some content \<Rightarrow> Inr (set (splitlines (universal_newlines False content))))"

section \<open>The endpoint format of the specification\<close>

text \<open>
  The specification's pattern for an endpoint,
  \<open>^\d{1,3}\.\d{1,3}\.\d{1,3}\.\d{1,3}:\d+$\<close>, read over the ASCII digits and with \<open>$\<close>
  as the end of the text. It is the specification's definition, not the program's: no
  function of the program tests it.
\<close>

definition ascii_digit :: "codepoint \<Rightarrow> bool" where
  "ascii_digit c \<longleftrightarrow> 48 \<le> c \<and> c \<le> 57"

definition digits_1_3 :: "pystr \<Rightarrow> pystr option" where
  "digits_1_3 s =
     (let n = length (takeWhile ascii_digit s)
      in if 1 \<le> n \<and> n \<le> 3 then Some (dropWhile ascii_digit s) else None)"

definition is_endpoint :: "pystr \<Rightarrow> bool" where
  "is_endpoint s =
     (case Option.bind (digits_1_3 s) (\<lambda>s1. Option.bind (lit_char 46 s1)
          (\<lambda>s2. Option.bind (digits_1_3 s2) (\<lambda>s3. Option.bind (lit_char 46 s3)
          (\<lambda>s4. Option.bind (digits_1_3 s4) (\<lambda>s5. Option.bind (lit_char 46 s5)
          (\<lambda>s6. Option.bind (digits_1_3 s6) (\<lambda>s7. Option.bind (lit_char 58 s7)
          (digits1 ascii_digit)))))))) of
        None \<Rightarrow> False
      | Some r \<Rightarrow> r = [])"

text \<open>An entry that survives a file: not empty, and without a line boundary in it.\<close>

definition line_safe :: "pystr \<Rightarrow> bool" where
  "line_safe s \<longleftrightarrow> s \<noteq> [] \<and> list_all (\<lambda>c. \<not> is_linebreak c) s"

section \<open>Concrete environments\<close>

definition world0 :: world where
  "world0 = \<lparr>requests = [], files = Map.empty\<rparr>"

definition ok_response :: response where
  "ok_response = \<lparr>status_code = 200, body_text = lit ''{origin: 203.0.113.5}''\<rparr>"

definition portal_response :: response where
  "portal_response = \<lparr>status_code = 200, body_text = lit ''<html>Please log in</html>''\<rparr>"

definition env_with :: "(request \<Rightarrow> exn + response) \<Rightarrow> env" where
  "env_with n =
     \<lparr>net = n, timestamp = lit ''2024-05-01-09-30-00AM'', html_rows = (\<lambda>page. []),
      set_iter = sorted_list_of_set, nonascii_Nd = (\<lambda>c. False), nonascii_digit = (\<lambda>c. False)\<rparr>"


text \<open>Every request is answered with status 200 and a body that names an origin.\<close>

definition net_open :: "request \<Rightarrow> exn + response" where
  "net_open r = Inr ok_response"

text \<open>Every request is answered with status 200 by an unrelated page.\<close>

definition net_portal :: "request \<Rightarrow> exn + response" where
  "net_portal r = Inr portal_response"

text \<open>
  The scenario of the specification: the test target answers through
  \<open>203.0.113.5:8080\<close> and every other request times out.
\<close>

definition net_scenario :: "request \<Rightarrow> exn + response" where
  "net_scenario r =
     (if r = Get TEST_URL (Some (lit ''203.0.113.5:8080'')) then Inr ok_response
      else Inl RequestException)"

section \<open>Facts about text\<close>

lemma startswith_iff: "startswith s p \<longleftrightarrow> (\<exists>suf. s = p @ suf)"
  by (induction s p rule: startswith.induct) auto

lemma str_contains_iff: "str_contains needle hay \<longleftrightarrow> (\<exists>pre suf. hay = pre @ needle @ suf)"
proof (induction hay)
  case Nil
  then show ?case by auto
next
  case (Cons c cs)
  show ?case
  proof
    assume "str_contains needle (c # cs)"
    then consider "startswith (c # cs) needle" | "str_contains needle cs" by auto
    then show "\<exists>pre suf. c # cs = pre @ needle @ suf"
    proof cases
      case 1
      then obtain suf where "c # cs = needle @ suf" by (auto simp: startswith_iff)
      then have "c # cs = [] @ needle @ suf" by simp
      then show ?thesis by blast
    next
      case 2
      then obtain pre suf where "cs = pre @ needle @ suf" using Cons.IH by blast
      then have "c # cs = (c # pre) @ needle @ suf" by simp
      then show ?thesis by blast
    qed
  next
    assume "\<exists>pre suf. c # cs = pre @ needle @ suf"
    then obtain pre suf where eq: "c # cs = pre @ needle @ suf" by blast
    show "str_contains needle (c # cs)"
    proof (cases pre)
      case Nil
      then have "startswith (c # cs) needle" using eq by (auto simp: startswith_iff)
      then show ?thesis by simp
    next
      case (Cons d pre')
      then have "cs = pre' @ needle @ suf" using eq by simp
      then have "str_contains needle cs" using Cons.IH by blast
      then show ?thesis by simp
    qed
  qed
qed

section \<open>The probe and the validation run\<close>

lemma test_proxy_fst:
  "fst (test_proxy e w proxy) =
     Inr (case net e (Get TEST_URL (Some proxy)) of
            Inl err \<Rightarrow> False
          | Inr r \<Rightarrow> status_code r = 200 \<and> str_contains (lit ''origin'') (body_text r))"
  by (simp add: test_proxy_def requests_get_def split: sum.splits)

lemma test_proxy_snd:
  "snd (test_proxy e w proxy) = w\<lparr>requests := requests w @ [Get TEST_URL (Some proxy)]\<rparr>"
  by (simp add: test_proxy_def requests_get_def split: sum.splits)

lemma test_proxy_fst_any_world: "fst (test_proxy e w proxy) = fst (test_proxy e w0 proxy)"
  by (simp add: test_proxy_fst)

lemma executor_map_test_proxy:
  "executor_map (test_proxy e) xs w =
     (map (\<lambda>p. fst (test_proxy e w0 p)) xs,
      w\<lparr>requests := requests w @ map (\<lambda>p. Get TEST_URL (Some p)) xs\<rparr>)"
proof (induction xs arbitrary: w)
  case Nil
  show ?case by simp
next
  case (Cons x xs)
  have step: "test_proxy e w x =
      (fst (test_proxy e w0 x), w\<lparr>requests := requests w @ [Get TEST_URL (Some x)]\<rparr>)"
    using test_proxy_fst_any_world [of e w x w0] test_proxy_snd [of e w x]
    by (metis prod.collapse)
  show ?case
    by (simp add: step Cons.IH)
qed

lemma collect_valid_outcomes:
  "collect_valid (zip xs (map (\<lambda>p. Inr (ok p)) xs)) valid = Inr (valid @ filter ok xs)"
  by (induction xs arbitrary: valid) simp_all

lemma test_proxy_Inr: "fst (test_proxy e w p) = Inr (fst (test_proxy e w p) = Inr True)"
  by (simp add: test_proxy_fst)

lemma filter_proxies_eq:
  "filter_proxies e w xs =
     (Inr (filter (\<lambda>p. fst (test_proxy e w0 p) = Inr True) xs),
      w\<lparr>requests := requests w @ map (\<lambda>p. Get TEST_URL (Some p)) xs\<rparr>)"
proof -
  let ?ok = "\<lambda>p. fst (test_proxy e w0 p) = Inr True"
  have "(\<lambda>p. fst (test_proxy e w0 p)) = (\<lambda>p. Inr (?ok p))"
    using test_proxy_Inr [of e w0] by auto
  then have "executor_map (test_proxy e) xs w =
      (map (\<lambda>p. Inr (?ok p)) xs, w\<lparr>requests := requests w @ map (\<lambda>p. Get TEST_URL (Some p)) xs\<rparr>)"
    using executor_map_test_proxy [of e xs w w0] by simp
  then show ?thesis
    by (simp add: filter_proxies_def collect_valid_outcomes)
qed

lemma count_list_distinct: "distinct xs \<Longrightarrow> count_list xs x = (if x \<in> set xs then 1 else 0)"
  by (induction xs) auto

lemma count_list_probes:
  assumes "distinct xs"
  shows "count_list (map (\<lambda>p. Get TEST_URL (Some p)) xs) r =
           (if \<exists>p\<in>set xs. r = Get TEST_URL (Some p) then 1 else 0)"
proof -
  have "inj (\<lambda>p. Get TEST_URL (Some p))" by (simp add: inj_def)
  then have "distinct (map (\<lambda>p. Get TEST_URL (Some p)) xs)"
    using assms by (simp add: distinct_map inj_on_def)
  then show ?thesis
    by (auto simp: count_list_distinct)
qed

text \<open>
  Claim C1. For every candidate collection, \<open>filter_proxies\<close> returns a list, every
  entry of that list is one of the candidates, and every entry is one whose probe
  returned \<open>True\<close> (Working).
\<close>

theorem filter_proxies_subset:
  "\<exists>valid. fst (filter_proxies e w proxies) = Inr valid \<and> set valid \<subseteq> set proxies
     \<and> (\<forall>p\<in>set valid. fst (test_proxy e w p) = Inr True)"
  by (simp add: filter_proxies_eq [of e w proxies w])

theorem filter_proxies_subset_witness:
  "fst (filter_proxies (env_with net_scenario) world0
          [lit ''203.0.113.5:8080'', lit ''198.51.100.7:3128'']) = Inr [lit ''203.0.113.5:8080'']
   \<and> set [lit ''203.0.113.5:8080''] \<subseteq> set [lit ''203.0.113.5:8080'', lit ''198.51.100.7:3128'']
   \<and> fst (test_proxy (env_with net_scenario) world0 (lit ''203.0.113.5:8080'')) = Inr True"
proof -
  have run: "fst (filter_proxies (env_with net_scenario) world0
          [lit ''203.0.113.5:8080'', lit ''198.51.100.7:3128'']) = Inr [lit ''203.0.113.5:8080'']"
    by (simp add: filter_proxies_def test_proxy_def requests_get_def env_with_def net_scenario_def
        ok_response_def lit_def TEST_URL_def)
  from filter_proxies_subset [of "env_with net_scenario" world0
      "[lit ''203.0.113.5:8080'', lit ''198.51.100.7:3128'']"]
  show ?thesis
    unfolding run by simp
qed

text \<open>
  Claim C2. \<open>test_proxy\<close> returns \<open>True\<close> exactly when the request got a response whose
  status is 200 and whose body contains \<open>origin\<close>; a response with status 200 and a
  body without \<open>origin\<close> gives \<open>False\<close>.
\<close>

theorem test_proxy_working_iff:
  "(fst (test_proxy e w proxy) = Inr True \<longleftrightarrow>
      (\<exists>r. net e (Get TEST_URL (Some proxy)) = Inr r \<and> status_code r = 200
           \<and> str_contains (lit ''origin'') (body_text r)))
   \<and> (\<forall>r. net e (Get TEST_URL (Some proxy)) = Inr r \<and> status_code r = 200
           \<and> \<not> str_contains (lit ''origin'') (body_text r)
         \<longrightarrow> fst (test_proxy e w proxy) = Inr False)"
  by (auto simp: test_proxy_fst split: sum.splits)

theorem test_proxy_working_iff_witness:
  "net (env_with net_portal) (Get TEST_URL (Some (lit ''203.0.113.5:8080''))) = Inr portal_response
   \<and> status_code portal_response = 200
   \<and> \<not> str_contains (lit ''origin'') (body_text portal_response)
   \<and> fst (test_proxy (env_with net_portal) world0 (lit ''203.0.113.5:8080'')) = Inr False"
proof -
  have a: "net (env_with net_portal) (Get TEST_URL (Some (lit ''203.0.113.5:8080''))) = Inr portal_response"
    by (simp add: env_with_def net_portal_def)
  have b: "status_code portal_response = 200"
    by (simp add: portal_response_def)
  have c: "\<not> str_contains (lit ''origin'') (body_text portal_response)"
    by (simp add: portal_response_def lit_def)
  from test_proxy_working_iff [of "env_with net_portal" world0 "lit ''203.0.113.5:8080''"] a b c
  show ?thesis by blast
qed



text \<open>
  Claim C4. In a run of \<open>filter_proxies\<close> over a set of candidates (a list without
  repetition), the requests the run adds to the log are one probe for each candidate and
  nothing else: no candidate is probed twice and none is left out. The loop pairs each
  candidate with the outcome of its own probe, and the list returned is made of the
  candidates whose own outcome is \<open>True\<close>.
\<close>

theorem filter_proxies_one_outcome_each:
  assumes "distinct proxies"
  shows "\<exists>new. requests (snd (filter_proxies e w proxies)) = requests w @ new
           \<and> (\<forall>r. count_list new r = (if \<exists>p\<in>set proxies. r = Get TEST_URL (Some p) then 1 else 0))
           \<and> zip proxies (fst (executor_map (test_proxy e) proxies w))
               = map (\<lambda>p. (p, fst (test_proxy e w p))) proxies
           \<and> fst (filter_proxies e w proxies)
               = Inr (filter (\<lambda>p. fst (test_proxy e w p) = Inr True) proxies)"
proof -
  have "zip proxies (map (\<lambda>p. fst (test_proxy e w p)) proxies)
          = map (\<lambda>p. (p, fst (test_proxy e w p))) proxies"
    by (simp add: zip_map2 zip_same_conv_map)
  then show ?thesis
    using count_list_probes [OF assms]
    by (simp add: filter_proxies_eq [of e w proxies w] executor_map_test_proxy [of e proxies w w])
qed

theorem filter_proxies_one_outcome_each_witness:
  "distinct [lit ''203.0.113.5:8080'', lit ''198.51.100.7:3128'']
   \<and> requests (snd (filter_proxies (env_with net_scenario) world0
         [lit ''203.0.113.5:8080'', lit ''198.51.100.7:3128'']))
       = requests world0 @ [Get TEST_URL (Some (lit ''203.0.113.5:8080'')),
                            Get TEST_URL (Some (lit ''198.51.100.7:3128''))]
   \<and> fst (filter_proxies (env_with net_scenario) world0
         [lit ''203.0.113.5:8080'', lit ''198.51.100.7:3128''])
       = Inr (filter (\<lambda>p. fst (test_proxy (env_with net_scenario) world0 p) = Inr True)
               [lit ''203.0.113.5:8080'', lit ''198.51.100.7:3128''])"
proof -
  have d: "distinct [lit ''203.0.113.5:8080'', lit ''198.51.100.7:3128'']"
    by (simp add: lit_def)
  have log: "requests (snd (filter_proxies (env_with net_scenario) world0
         [lit ''203.0.113.5:8080'', lit ''198.51.100.7:3128'']))
       = requests world0 @ [Get TEST_URL (Some (lit ''203.0.113.5:8080'')),
                            Get TEST_URL (Some (lit ''198.51.100.7:3128''))]"
    by (simp add: filter_proxies_def test_proxy_def requests_get_def split: sum.splits)
  from filter_proxies_one_outcome_each [OF d, of "env_with net_scenario" world0] d log
  show ?thesis by blast
qed

text \<open>
  Claim C6. On the empty candidate collection \<open>filter_proxies\<close> returns the empty list
  and leaves the world as it was: no request is sent.
\<close>

theorem filter_proxies_empty:
  "filter_proxies e w [] = (Inr [], w)"
  by (simp add: filter_proxies_def)

text \<open>
  Claim C5 fails on the program: \<open>not-an-ip\<close> does not match the endpoint pattern, yet
  \<open>filter_proxies\<close> sends a probe for it, and returns it when the probe succeeds.
\<close>

theorem filter_proxies_probes_malformed:
  "\<not> is_endpoint (lit ''not-an-ip'')
   \<and> Get TEST_URL (Some (lit ''not-an-ip''))
       \<in> set (requests (snd (filter_proxies (env_with net_open) world0 [lit ''not-an-ip''])))
   \<and> fst (filter_proxies (env_with net_open) world0 [lit ''not-an-ip'']) = Inr [lit ''not-an-ip'']"
proof -
  have a: "\<not> is_endpoint (lit ''not-an-ip'')"
    by (simp add: is_endpoint_def digits_1_3_def ascii_digit_def lit_def)
  have b: "filter_proxies (env_with net_open) world0 [lit ''not-an-ip'']
      = (Inr [lit ''not-an-ip''], world0\<lparr>requests := requests world0 @ [Get TEST_URL (Some (lit ''not-an-ip''))]\<rparr>)"
    by (simp add: filter_proxies_def test_proxy_def requests_get_def env_with_def net_open_def
        ok_response_def lit_def)
  show ?thesis using a by (simp add: b)
qed

text \<open>
  Claim C5, amended. \<open>filter_proxies\<close> has no check of the format: every entry of its
  input, matching the endpoint pattern or not, is probed, the run is not aborted, and
  the entry is in the list returned exactly when its probe returned \<open>True\<close>. What is
  returned is that list alone, with no count of entries skipped.
\<close>

theorem filter_proxies_no_format_check:
  assumes "p \<in> set proxies"
  shows "Get TEST_URL (Some p) \<in> set (requests (snd (filter_proxies e w proxies)))
         \<and> (\<exists>valid. fst (filter_proxies e w proxies) = Inr valid
              \<and> (p \<in> set valid \<longleftrightarrow> fst (test_proxy e w p) = Inr True))"
  using assms by (simp add: filter_proxies_eq [of e w proxies w])

theorem filter_proxies_no_format_check_witness:
  "lit ''not-an-ip'' \<in> set [lit ''not-an-ip'', lit ''203.0.113.5:8080'']
   \<and> \<not> is_endpoint (lit ''not-an-ip'')
   \<and> Get TEST_URL (Some (lit ''not-an-ip''))
       \<in> set (requests (snd (filter_proxies (env_with net_scenario) world0
                 [lit ''not-an-ip'', lit ''203.0.113.5:8080''])))
   \<and> fst (filter_proxies (env_with net_scenario) world0
            [lit ''not-an-ip'', lit ''203.0.113.5:8080'']) = Inr [lit ''203.0.113.5:8080'']"
proof -
  have m: "lit ''not-an-ip'' \<in> set [lit ''not-an-ip'', lit ''203.0.113.5:8080'']"
    by simp
  have a: "\<not> is_endpoint (lit ''not-an-ip'')"
    by (simp add: is_endpoint_def digits_1_3_def ascii_digit_def lit_def)
  have r: "fst (filter_proxies (env_with net_scenario) world0
            [lit ''not-an-ip'', lit ''203.0.113.5:8080'']) = Inr [lit ''203.0.113.5:8080'']"
    by (simp add: filter_proxies_def test_proxy_def requests_get_def env_with_def net_scenario_def
        ok_response_def lit_def TEST_URL_def)
  from filter_proxies_no_format_check [OF m, of "env_with net_scenario" world0] a r
  show ?thesis by simp
qed

section \<open>Saving and reading back\<close>

lemma splitlines_from_plain:
  "list_all (\<lambda>c. \<not> is_linebreak c) s \<Longrightarrow>
     splitlines_from cur cr (s @ rest) = splitlines_from (cur @ s) (cr \<and> s = []) rest"
proof (induction s arbitrary: cur cr)
  case Nil
  show ?case by simp
next
  case (Cons c s)
  then have c: "\<not> is_linebreak c" and s: "list_all (\<lambda>c. \<not> is_linebreak c) s" by simp_all
  from c have "c \<noteq> 10" by (auto simp: is_linebreak_def)
  then have "splitlines_from cur cr ((c # s) @ rest) = splitlines_from (cur @ [c]) False (s @ rest)"
    using c by simp
  also have "\<dots> = splitlines_from ((cur @ [c]) @ s) (False \<and> s = []) rest"
    by (rule Cons.IH [OF s])
  finally show ?case by simp
qed

lemma splitlines_join:
  "\<forall>p\<in>set xs. line_safe p \<Longrightarrow> splitlines_from [] False (join [10] xs) = xs"
proof (induction "[10::nat]" xs rule: join.induct)
  case 1
  show ?case by simp
next
  case (2 x)
  then have "list_all (\<lambda>c. \<not> is_linebreak c) x" and "x \<noteq> []" by (simp_all add: line_safe_def)
  then show ?case
    using splitlines_from_plain [of x "[]" False "[]"] by simp
next
  case (3 x y ys)
  then have x: "list_all (\<lambda>c. \<not> is_linebreak c) x" "x \<noteq> []" by (simp_all add: line_safe_def)
  have rest: "splitlines_from [] False (join [10] (y # ys)) = y # ys"
    using 3 by simp
  have "splitlines_from [] False (x @ 10 # join [10] (y # ys))
          = splitlines_from x False (10 # join [10] (y # ys))"
    using splitlines_from_plain [OF x(1), of "[]" False] x(2) by simp
  also have "\<dots> = x # splitlines_from [] False (join [10] (y # ys))"
    by (simp add: is_linebreak_def)
  finally show ?case by (simp add: rest)
qed

lemma universal_newlines_plain: "13 \<notin> set s \<Longrightarrow> universal_newlines False s = s"
  by (induction s) auto

lemma set_join: "set (join sep xs) \<subseteq> set sep \<union> \<Union> (set ` set xs)"
  by (induction sep xs rule: join.induct) auto

lemma join_no_cr:
  assumes "\<forall>p\<in>set xs. line_safe p"
  shows "13 \<notin> set (join [10] xs)"
proof
  assume "13 \<in> set (join [10] xs)"
  then have "13 \<in> set [10::nat] \<union> \<Union> (set ` set xs)" using set_join by blast
  then obtain p where "p \<in> set xs" "13 \<in> set p" by auto
  moreover have "is_linebreak 13" by (simp add: is_linebreak_def)
  ultimately show False using assms by (auto simp: line_safe_def list_all_iff)
qed

lemma ascii_digit_plain: "ascii_digit c \<Longrightarrow> \<not> is_linebreak c"
  by (auto simp: ascii_digit_def is_linebreak_def)

lemma digits_1_3_Some:
  assumes "digits_1_3 s = Some r"
  shows "\<exists>ds. s = ds @ r \<and> ds \<noteq> [] \<and> list_all ascii_digit ds"
proof -
  from assms have n: "1 \<le> length (takeWhile ascii_digit s)" and r: "r = dropWhile ascii_digit s"
    by (auto simp: digits_1_3_def Let_def split: if_splits)
  have "s = takeWhile ascii_digit s @ r" using r by simp
  moreover have "takeWhile ascii_digit s \<noteq> []" using n by auto
  moreover have "list_all ascii_digit (takeWhile ascii_digit s)"
    by (auto simp: list_all_iff dest: set_takeWhileD)
  ultimately show ?thesis by blast
qed

lemma digits1_Some:
  assumes "digits1 d s = Some r"
  shows "\<exists>ds. s = ds @ r \<and> ds \<noteq> [] \<and> list_all d ds"
proof -
  from assms obtain c cs where s: "s = c # cs" and c: "d c" and r: "r = dropWhile d cs"
    by (auto simp: digits1_def split: list.splits if_splits)
  have "s = (c # takeWhile d cs) @ r" using s r by simp
  moreover have "list_all d (c # takeWhile d cs)"
    using c by (auto simp: list_all_iff dest: set_takeWhileD)
  ultimately show ?thesis by blast
qed

lemma lit_char_Some: "lit_char k s = Some r \<Longrightarrow> s = k # r"
  by (auto simp: lit_char_def split: list.splits if_splits)

lemma is_endpoint_shape:
  assumes "is_endpoint s"
  shows "\<exists>a b c d port. s = a @ 46 # b @ 46 # c @ 46 # d @ 58 # port
           \<and> a \<noteq> [] \<and> list_all ascii_digit a \<and> list_all ascii_digit b
           \<and> list_all ascii_digit c \<and> list_all ascii_digit d \<and> list_all ascii_digit port"
proof -
  from assms obtain s1 s2 s3 s4 s5 s6 s7 s8 where
    1: "digits_1_3 s = Some s1" and 2: "lit_char 46 s1 = Some s2" and
    3: "digits_1_3 s2 = Some s3" and 4: "lit_char 46 s3 = Some s4" and
    5: "digits_1_3 s4 = Some s5" and 6: "lit_char 46 s5 = Some s6" and
    7: "digits_1_3 s6 = Some s7" and 8: "lit_char 58 s7 = Some s8" and
    9: "digits1 ascii_digit s8 = Some []"
    by (auto simp: is_endpoint_def bind_eq_Some_conv split: option.splits)
  from digits_1_3_Some [OF 1] obtain a where a: "s = a @ s1" "a \<noteq> []" "list_all ascii_digit a" by blast
  from digits_1_3_Some [OF 3] obtain b where b: "s2 = b @ s3" "list_all ascii_digit b" by blast
  from digits_1_3_Some [OF 5] obtain c where c: "s4 = c @ s5" "list_all ascii_digit c" by blast
  from digits_1_3_Some [OF 7] obtain d where d: "s6 = d @ s7" "list_all ascii_digit d" by blast
  from digits1_Some [OF 9] obtain port where p: "s8 = port" "list_all ascii_digit port" by auto
  have "s = a @ 46 # b @ 46 # c @ 46 # d @ 58 # port"
    using a(1) b(1) c(1) d(1) p(1) lit_char_Some [OF 2] lit_char_Some [OF 4]
      lit_char_Some [OF 6] lit_char_Some [OF 8] by simp
  then show ?thesis using a b c d p by blast
qed

lemma is_endpoint_line_safe:
  assumes "is_endpoint s"
  shows "line_safe s"
proof -
  from is_endpoint_shape [OF assms] obtain a b c d port where
    s: "s = a @ 46 # b @ 46 # c @ 46 # d @ 58 # port" and ne: "a \<noteq> []" and
    ds: "list_all ascii_digit a" "list_all ascii_digit b" "list_all ascii_digit c"
        "list_all ascii_digit d" "list_all ascii_digit port"
    by blast
  have plain: "list_all (\<lambda>c. \<not> is_linebreak c) xs" if "list_all ascii_digit xs" for xs
    using that by (auto simp: list_all_iff ascii_digit_plain)
  have "\<not> is_linebreak 46" "\<not> is_linebreak 58" by (simp_all add: is_linebreak_def)
  then have "list_all (\<lambda>c. \<not> is_linebreak c) s"
    using ds [THEN plain] by (simp add: s)
  moreover have "s \<noteq> []" using s ne by simp
  ultimately show ?thesis by (simp add: line_safe_def)
qed

lemma endpoints_roundtrip:
  assumes "\<forall>p\<in>set proxies. is_endpoint p"
  shows "read_proxy_file (snd (save_proxies e w proxies prefix)) (output_path e prefix)
           = Inr (set proxies)"
proof -
  have safe: "\<forall>p\<in>set proxies. line_safe p"
    using assms is_endpoint_line_safe by blast
  show ?thesis
    using splitlines_join [OF safe] universal_newlines_plain [OF join_no_cr [OF safe]]
    by (simp add: read_proxy_file_def save_proxies_def splitlines_def)
qed




text \<open>
  Claim C9. \<open>save_proxies\<close> is annotated \<open>-> Path\<close> and returns \<open>None\<close> for every
  input: the path of the file is not in the value returned.
\<close>

theorem save_proxies_returns_None:
  "fst (save_proxies e w proxies prefix) = None"
  by (simp add: save_proxies_def)

section \<open>Collecting candidates\<close>

text \<open>
  Claim C10. When the list of sources asked for holds a name that is not a key of
  \<open>PROXY_SOURCES\<close>, \<open>get_proxies\<close> raises the \<open>ValueError\<close> that names the unknown
  sources, and the world is as before the call: no request was sent and no file written.
\<close>

theorem get_proxies_invalid_source:
  assumes "\<exists>s\<in>set sources. s \<notin> set (map fst PROXY_SOURCES)"
  shows "get_proxies e w (Some sources)
           = (Inl (ValueError (InvalidSources (set sources - set (map fst PROXY_SOURCES)))), w)"
proof -
  have "set sources - set (map fst PROXY_SOURCES) \<noteq> {}" using assms by auto
  then show ?thesis by (simp add: get_proxies_def Let_def)
qed

theorem get_proxies_invalid_source_witness:
  "(\<exists>s\<in>set [lit ''sslproxies'', lit ''bogus'']. s \<notin> set (map fst PROXY_SOURCES))
   \<and> get_proxies (env_with net_open) world0 (Some [lit ''sslproxies'', lit ''bogus''])
       = (Inl (ValueError (InvalidSources {lit ''bogus''})), world0)"
proof -
  have h: "\<exists>s\<in>set [lit ''sslproxies'', lit ''bogus'']. s \<notin> set (map fst PROXY_SOURCES)"
    by (simp add: PROXY_SOURCES_def lit_def)
  have d: "set [lit ''sslproxies'', lit ''bogus''] - set (map fst PROXY_SOURCES) = {lit ''bogus''}"
    by (simp add: PROXY_SOURCES_def lit_def)
  from get_proxies_invalid_source [OF h, of "env_with net_open" world0] h
  show ?thesis by (simp only: d)
qed

end
